theory Spec2Isabelle
  imports Complex_Main
begin

section \<open>The spaced-repetition engine of poker-learn (src/engine/srs.ts)\<close>

text \<open>
  The engine keeps three pieces of module state (the deck, a JavaScript \<open>Map\<close> from
  the key \<open>hand|position\<close> to a \<open>CardState\<close>; the virtual clock; and the two
  \<open>localStorage\<close> slots) and every exported function reads or updates them. The
  model passes that state explicitly.

  Numbers. The fields \<open>interval\<close>, \<open>repetitions\<close>, \<open>due\<close>, \<open>lastSeen\<close>, the
  clock and the four counters of \<open>Stats\<close> only ever receive integers from the code
  (\<open>++\<close>, \<open>Math.round\<close>, sums of integers) and are modelled as \<open>int\<close>. The field
  \<open>ease\<close> is a fraction and is modelled as an exact rational: the binary rounding
  of a JavaScript double is not part of the model, so \<open>2.5 + 0.1\<close> is \<open>13/5\<close> here.
  \<open>Math.round x\<close> is \<open>\<lfloor>x + 1/2\<rfloor>\<close>, which is what \<^const>\<open>round\<close> is in HOL.
\<close>

subsection \<open>Data\<close>

text \<open>
  \<open>Combo\<close> is imported from \<open>data/ranges\<close>; the engine reads its fields \<open>hand\<close>
  and \<open>position\<close> only. \<open>CardState\<close> has the same two fields and the five
  scheduling fields.
\<close>

record Combo =
  hand :: string
  position :: string

record CardState = Combo +
  interval :: int
  ease :: rat
  repetitions :: int
  due :: int
  lastSeen :: int

record Stats =
  totalReviews :: int
  correctReviews :: int
  currentStreak :: int
  bestStreak :: int

definition defaultStats :: Stats where
  "defaultStats = \<lparr>totalReviews = 0, correctReviews = 0, currentStreak = 0, bestStreak = 0\<rparr>"

text \<open>
  What \<open>JSON.parse\<close> can return. A stored text is classified by what the code can
  tell about it: the empty string (falsy, so \<open>if (raw)\<close> skips it), a text that
  \<open>JSON.parse\<close> rejects, or a text that it reads as a JSON value. The last
  constructor is also what \<open>JSON.stringify\<close> writes: the characters of the wire
  format, and the printing and reading of numbers, are the built-ins' business and are
  not modelled.
\<close>

datatype json =
    JNull
  | JBool bool
  | JNum rat
  | JStr string
  | JArr "json list"
  | JObj "(string \<times> json) list"

datatype blob = Empty_text | Invalid_text | Json_text json

datatype error = SyntaxError | TypeError

definition truthy :: "blob \<Rightarrow> bool" where
  "truthy t = (t \<noteq> Empty_text)"

fun JSON_parse :: "blob \<Rightarrow> error + json" where
  "JSON_parse Empty_text = Inl SyntaxError"
| "JSON_parse Invalid_text = Inl SyntaxError"
| "JSON_parse (Json_text j) = Inr j"

definition JSON_stringify :: "json \<Rightarrow> blob" where
  "JSON_stringify j = Json_text j"

text \<open>
  TypeScript's annotations (\<open>const arr: CardState[] = JSON.parse(raw)\<close>, the return type
  \<open>Stats\<close> of \<open>loadStats\<close>) are not checked at run time. A value of declared type
  \<open>'a\<close> is therefore either \<open>Typed v\<close>, a value that has the declared shape, or
  \<open>Untyped j\<close>, made from a parsed JSON value \<open>j\<close> that has not (for \<open>loadStats\<close>
  it is \<open>j\<close> itself). The shape is the
  one the engine itself writes: the fields in the order of the object literals in
  \<open>ensureDeck\<close> and \<open>defaultStats\<close>, integers where the model has \<open>int\<close>.
\<close>

datatype 'a js = Typed 'a | Untyped json

fun asInt :: "json \<Rightarrow> int option" where
  "asInt (JNum r) = (if of_int \<lfloor>r\<rfloor> = r then Some \<lfloor>r\<rfloor> else None)"
| "asInt _ = None"

fun asNum :: "json \<Rightarrow> rat option" where
  "asNum (JNum r) = Some r"
| "asNum _ = None"

fun asStr :: "json \<Rightarrow> string option" where
  "asStr (JStr s) = Some s"
| "asStr _ = None"

definition Stats_json :: "Stats \<Rightarrow> json" where
  "Stats_json s = JObj
     [(''totalReviews'', JNum (of_int (totalReviews s))),
      (''correctReviews'', JNum (of_int (correctReviews s))),
      (''currentStreak'', JNum (of_int (currentStreak s))),
      (''bestStreak'', JNum (of_int (bestStreak s)))]"

definition asStats :: "json \<Rightarrow> Stats option" where
  "asStats j = (case j of
     JObj fs \<Rightarrow>
       (if map fst fs = [''totalReviews'', ''correctReviews'', ''currentStreak'', ''bestStreak'']
        then (case map (asInt \<circ> snd) fs of
                [Some a, Some b, Some c, Some d] \<Rightarrow>
                  Some \<lparr>totalReviews = a, correctReviews = b, currentStreak = c, bestStreak = d\<rparr>
              | _ \<Rightarrow> None)
        else None)
   | _ \<Rightarrow> None)"

definition CardState_json :: "CardState \<Rightarrow> json" where
  "CardState_json c = JObj
     [(''hand'', JStr (hand c)),
      (''position'', JStr (position c)),
      (''interval'', JNum (of_int (interval c))),
      (''ease'', JNum (ease c)),
      (''repetitions'', JNum (of_int (repetitions c))),
      (''due'', JNum (of_int (due c))),
      (''lastSeen'', JNum (of_int (lastSeen c)))]"

definition asCardState :: "json \<Rightarrow> CardState option" where
  "asCardState j = (case j of
     JObj fs \<Rightarrow>
       (if map fst fs = [''hand'', ''position'', ''interval'', ''ease'', ''repetitions'',
                         ''due'', ''lastSeen'']
        then (case map snd fs of
                [h, p, i, e, r, d, l] \<Rightarrow>
                  (case (asStr h, asStr p, asInt i, asNum e, asInt r, asInt d, asInt l) of
                     (Some h', Some p', Some i', Some e', Some r', Some d', Some l') \<Rightarrow>
                       Some \<lparr>hand = h', position = p', interval = i', ease = e',
                             repetitions = r', due = d', lastSeen = l'\<rparr>
                   | _ \<Rightarrow> None)
              | _ \<Rightarrow> None)
        else None)
   | _ \<Rightarrow> None)"

definition castStats :: "json \<Rightarrow> Stats js" where
  "castStats j = (case asStats j of Some s \<Rightarrow> Typed s | None \<Rightarrow> Untyped j)"

subsection \<open>The Map\<close>

text \<open>
  A JavaScript \<open>Map\<close> iterates in insertion order, and \<open>getNextCard\<close> depends on that
  order, so the deck is an association list. \<open>Map_set\<close> replaces the value of a key
  that is present, in place, and appends a new key at the end.
\<close>

type_synonym Deck = "(string \<times> CardState) list"

definition Map_get :: "('k \<times> 'v) list \<Rightarrow> 'k \<Rightarrow> 'v option" where
  "Map_get m k = map_of m k"

definition Map_has :: "('k \<times> 'v) list \<Rightarrow> 'k \<Rightarrow> bool" where
  "Map_has m k = (map_of m k \<noteq> None)"

fun Map_set :: "('k \<times> 'v) list \<Rightarrow> 'k \<Rightarrow> 'v \<Rightarrow> ('k \<times> 'v) list" where
  "Map_set [] k v = [(k, v)]"
| "Map_set ((k', v') # m) k v = (if k' = k then (k, v) # m else (k', v') # Map_set m k v)"

definition Map_values :: "('k \<times> 'v) list \<Rightarrow> 'v list" where
  "Map_values m = map snd m"

subsection \<open>Module state and persistence\<close>

text \<open>
  \<open>deckBlob\<close> and \<open>statsBlob\<close> are the \<open>localStorage\<close> items under \<open>STORAGE_KEY\<close>
  and \<open>STATS_KEY\<close> (\<open>None\<close> when \<open>getItem\<close> returns \<open>null\<close>); \<open>deck\<close> and
  \<open>clock\<close> are the two module variables.
\<close>

record state =
  deckBlob :: "blob option"
  statsBlob :: "blob option"
  deck :: "Deck option"
  clock :: int

text \<open>
  How a call ends: it returns a value, it throws, or it goes on with a value that does
  not have its declared type (\<open>Ill_typed\<close>), where the model stops following it.
\<close>

datatype 'a outcome = Returns 'a state | Throws error state | Ill_typed

text \<open>
  \<open>loadStats\<close>, lines 28 to 34. The body of the \<open>try\<close> block either throws, returns a
  value, or falls through (\<open>Inr None\<close>); the \<open>catch\<close> ignores the exception.
\<close>

definition loadStats_try :: "state \<Rightarrow> error + Stats js option" where
  "loadStats_try st = (case statsBlob st of
       None \<Rightarrow> Inr None
     | Some raw \<Rightarrow>
         if truthy raw
         then (case JSON_parse raw of Inl e \<Rightarrow> Inl e | Inr j \<Rightarrow> Inr (Some (castStats j)))
         else Inr None)"

definition loadStats :: "state \<Rightarrow> error + Stats js" where
  "loadStats st = (case loadStats_try st of
       Inr (Some v) \<Rightarrow> Inr v
     | Inr None \<Rightarrow> Inr (Typed defaultStats)
     | Inl e \<Rightarrow> Inr (Typed defaultStats))"

definition saveStats :: "Stats \<Rightarrow> state \<Rightarrow> state" where
  "saveStats s st = st\<lparr>statsBlob := Some (JSON_stringify (Stats_json s))\<rparr>"

definition getStats :: "state \<Rightarrow> error + Stats js" where
  "getStats st = loadStats st"

definition resetProgress :: "state \<Rightarrow> state" where
  "resetProgress st = st\<lparr>deckBlob := None, statsBlob := None\<rparr>"

definition comboKey :: "'a Combo_scheme \<Rightarrow> string" where
  "comboKey c = hand c @ ''|'' @ position c"

text \<open>
  \<open>loadDeck\<close>, lines 55 to 68. \<open>for (const cs of arr)\<close> throws a TypeError when the
  parsed value is not iterable (\<open>null\<close>, a boolean, a number, an object), and
  \<open>cs.hand\<close> throws one when an element is \<open>null\<close>; both are caught and give the
  empty Map. An element that is a CardState is stored under its key. With any other
  element, or with a non-empty string (its characters are the elements), the result is
  \<open>Untyped\<close>: the Map then holds a value that is no CardState (or, should making its
  key throw, the result is the empty Map), and the model does not tell which.
\<close>

fun loadDeck_loop :: "json list \<Rightarrow> Deck js \<Rightarrow> json \<Rightarrow> error + Deck js" where
  "loadDeck_loop [] m arr = Inr m"
| "loadDeck_loop (cs # rest) m arr =
     (if cs = JNull then Inl TypeError
      else (case (asCardState cs, m) of
              (Some c, Typed d) \<Rightarrow> loadDeck_loop rest (Typed (Map_set d (comboKey c) c)) arr
            | _ \<Rightarrow> loadDeck_loop rest (Untyped arr) arr))"

definition loadDeck_try :: "state \<Rightarrow> error + Deck js option" where
  "loadDeck_try st = (case deckBlob st of
       None \<Rightarrow> Inr None
     | Some raw \<Rightarrow>
         if truthy raw
         then (case JSON_parse raw of
                 Inl e \<Rightarrow> Inl e
               | Inr arr \<Rightarrow>
                   (case arr of
                      JArr elems \<Rightarrow> map_sum id Some (loadDeck_loop elems (Typed []) arr)
                    | JStr s \<Rightarrow> Inr (Some (if s = [] then Typed [] else Untyped arr))
                    | _ \<Rightarrow> Inl TypeError))
         else Inr None)"

definition loadDeck :: "state \<Rightarrow> error + Deck js" where
  "loadDeck st = (case loadDeck_try st of
       Inr (Some m) \<Rightarrow> Inr m
     | Inr None \<Rightarrow> Inr (Typed [])
     | Inl e \<Rightarrow> Inr (Typed []))"

definition saveDeck :: "Deck \<Rightarrow> state \<Rightarrow> state" where
  "saveDeck d st = st\<lparr>deckBlob := Some (JSON_stringify (JArr (map CardState_json (Map_values d))))\<rparr>"

subsection \<open>ensureDeck\<close>

text \<open>
  Lines 77 to 105. \<open>getAllCombos\<close> belongs to \<open>data/ranges\<close>, so the catalog is a
  parameter \<open>combos\<close> of every function that loads the deck.
\<close>

definition freshCard :: "'a Combo_scheme \<Rightarrow> CardState" where
  "freshCard c = \<lparr>hand = hand c, position = position c, interval = 0, ease = 5 / 2,
                  repetitions = 0, due = 0, lastSeen = - 1\<rparr>"

definition addCombo :: "Deck \<Rightarrow> 'a Combo_scheme \<Rightarrow> Deck" where
  "addCombo d c = (if \<not> Map_has d (comboKey c) then Map_set d (comboKey c) (freshCard c) else d)"

definition clockStep :: "int \<Rightarrow> CardState \<Rightarrow> int" where
  "clockStep clk cs =
     (let c1 = (if due cs > clk then due cs else clk)
      in if lastSeen cs \<ge> c1 then lastSeen cs + 1 else c1)"

definition ensureDeck :: "Combo list \<Rightarrow> state \<Rightarrow> Deck outcome" where
  "ensureDeck combos st = (case deck st of
       Some d \<Rightarrow> Returns d st
     | None \<Rightarrow>
         (case loadDeck st of
            Inl e \<Rightarrow> Throws e st
          | Inr (Untyped j) \<Rightarrow> Ill_typed
          | Inr (Typed d0) \<Rightarrow>
              (let d = foldl addCombo d0 combos;
                   clk = foldl clockStep (clock st) (Map_values d)
               in Returns d (st\<lparr>deck := Some d, clock := clk\<rparr>))))"

definition reloadDeck :: "state \<Rightarrow> state" where
  "reloadDeck st = st\<lparr>deck := None, clock := 0\<rparr>"

subsection \<open>getNextCard\<close>

text \<open>
  Lines 111 to 135. \<open>rnd\<close> is the value of \<open>Math.random()\<close>, a number in \<open>[0, 1)\<close>.
  \<open>Array.prototype.sort\<close> is stable, as \<^const>\<open>sort_key\<close> is. With an empty deck
  \<open>cards[0].due\<close> throws a TypeError; an index outside the pool would return
  \<open>undefined\<close>.
\<close>

definition pick :: "CardState list \<Rightarrow> rat \<Rightarrow> state \<Rightarrow> CardState outcome" where
  "pick pool rnd st =
     (let idx = \<lfloor>rnd * of_nat (length pool)\<rfloor>
      in if 0 \<le> idx \<and> idx < int (length pool) then Returns (pool ! nat idx) st else Ill_typed)"

definition getNextCard :: "Combo list \<Rightarrow> rat \<Rightarrow> state \<Rightarrow> CardState outcome" where
  "getNextCard combos rnd st = (case ensureDeck combos st of
       Throws e s \<Rightarrow> Throws e s
     | Ill_typed \<Rightarrow> Ill_typed
     | Returns d st1 \<Rightarrow>
         (let cards = Map_values d;
              dueCards = filter (\<lambda>c. due c \<le> clock st1) cards
          in if length dueCards > 0
             then (let sorted = sort_key due dueCards;
                       minDue = due (sorted ! 0);
                       pool = filter (\<lambda>c. due c \<le> minDue + 2) sorted
                   in pick pool rnd st1)
             else (case sort_key due cards of
                     [] \<Rightarrow> Throws TypeError st1
                   | c0 # _ \<Rightarrow>
                       (let minDue = due c0;
                            pool = filter (\<lambda>c. due c \<le> minDue + 2) (sort_key due cards)
                        in pick pool rnd st1))))"

subsection \<open>recordAnswer\<close>

text \<open>Lines 147 to 156: the statistics.\<close>

definition updateStats :: "bool \<Rightarrow> Stats \<Rightarrow> Stats" where
  "updateStats correct stats =
     (let s1 = stats\<lparr>totalReviews := totalReviews stats + 1\<rparr>
      in if correct
         then (let s2 = s1\<lparr>correctReviews := correctReviews s1 + 1\<rparr>;
                   s3 = s2\<lparr>currentStreak := currentStreak s2 + 1\<rparr>
               in if currentStreak s3 > bestStreak s3 then s3\<lparr>bestStreak := currentStreak s3\<rparr>
                  else s3)
         else s1\<lparr>currentStreak := 0\<rparr>)"

text \<open>Lines 159 to 177: the update of the card, \<open>clk\<close> being the clock after \<open>clock++\<close>.\<close>

definition updateCard :: "bool \<Rightarrow> int \<Rightarrow> CardState \<Rightarrow> CardState" where
  "updateCard correct clk c0 =
     (let c3 =
        (if correct
         then (let c1 = c0\<lparr>repetitions := repetitions c0 + 1\<rparr>;
                   c2 = (if repetitions c1 = 1 then c1\<lparr>interval := 1\<rparr>
                         else if repetitions c1 = 2 then c1\<lparr>interval := 3\<rparr>
                         else c1\<lparr>interval := round (of_int (interval c1) * ease c1)\<rparr>)
               in c2\<lparr>ease := max (13 / 10) (ease c2 + 1 / 10)\<rparr>)
         else (let c1 = c0\<lparr>repetitions := 0\<rparr>;
                   c2 = c1\<lparr>interval := 0\<rparr>
               in c2\<lparr>ease := max (13 / 10) (ease c2 - 3 / 10)\<rparr>));
          c4 = c3\<lparr>due := clk + interval c3\<rparr>
      in c4\<lparr>lastSeen := clk\<rparr>)"

text \<open>
  Lines 138 to 181. The card is an object held by the Map, so updating it updates the
  deck; \<open>d.set(key, card)\<close> stores it under the key it already has. When what
  \<open>loadStats\<close> returns is no Stats, \<open>stats.totalReviews++\<close> works on a value of
  another shape (and throws on \<open>null\<close>): the call is \<open>Ill_typed\<close> from there.
\<close>

definition recordAnswer :: "Combo list \<Rightarrow> string \<Rightarrow> string \<Rightarrow> bool \<Rightarrow> state \<Rightarrow> unit outcome" where
  "recordAnswer combos h p correct st = (case ensureDeck combos st of
       Throws e s \<Rightarrow> Throws e s
     | Ill_typed \<Rightarrow> Ill_typed
     | Returns d st1 \<Rightarrow>
         (let key = h @ ''|'' @ p
          in case Map_get d key of
               None \<Rightarrow> Returns () st1
             | Some c \<Rightarrow>
                 (let st2 = st1\<lparr>clock := clock st1 + 1\<rparr>
                  in case loadStats st2 of
                       Inl e \<Rightarrow> Throws e st2
                     | Inr (Untyped j) \<Rightarrow> Ill_typed
                     | Inr (Typed stats) \<Rightarrow>
                         (let st3 = saveStats (updateStats correct stats) st2;
                              c' = updateCard correct (clock st3) c;
                              d' = Map_set d key c';
                              st4 = st3\<lparr>deck := Some d'\<rparr>
                          in Returns () (saveDeck d' st4)))))"

subsection \<open>Observing the state\<close>

text \<open>
  \<open>cardAt\<close> is \<open>deck.get(k)\<close> on the loaded deck and \<open>cardOf\<close> the same for the key
  of \<open>(h, p)\<close>. \<open>answered\<close> is the state that lines 144 to 180 of \<open>recordAnswer\<close>
  leave behind when the card \<open>c\<close> was found under \<open>key\<close> in the deck \<open>d\<close> and the
  stored statistics were \<open>s\<close>.
\<close>

definition cardAt :: "state \<Rightarrow> string \<Rightarrow> CardState option" where
  "cardAt st k = (case deck st of None \<Rightarrow> None | Some d \<Rightarrow> Map_get d k)"

definition cardOf :: "state \<Rightarrow> string \<Rightarrow> string \<Rightarrow> CardState option" where
  "cardOf st h p = (case deck st of None \<Rightarrow> None | Some d \<Rightarrow> Map_get d (h @ ''|'' @ p))"

definition answered :: "bool \<Rightarrow> string \<Rightarrow> Stats \<Rightarrow> Deck \<Rightarrow> CardState \<Rightarrow> state \<Rightarrow> state" where
  "answered correct key s d c st =
     (let d' = Map_set d key (updateCard correct (clock st + 1) c)
      in \<lparr>deckBlob = Some (JSON_stringify (JArr (map CardState_json (Map_values d')))),
          statsBlob = Some (JSON_stringify (Stats_json (updateStats correct s))),
          deck = Some d', clock = clock st + 1\<rparr>)"


text \<open>What one entry contributes to the clock on load.\<close>

definition entryTick :: "CardState \<Rightarrow> int" where
  "entryTick cs = max (due cs) (lastSeen cs + 1)"

text \<open>The fields a card has when \<open>ensureDeck\<close> creates it.\<close>

definition isDefault :: "CardState \<Rightarrow> bool" where
  "isDefault c \<longleftrightarrow> interval c = 0 \<and> ease c = 5 / 2 \<and> repetitions c = 0 \<and> due c = 0 \<and>
     lastSeen c = - 1"


subsection \<open>Invariants\<close>

text \<open>
  The decks the engine builds: no key twice (a Map has none), and every card under the
  key of its own \<open>hand\<close> and \<open>position\<close>.
\<close>

definition keyed :: "Deck \<Rightarrow> bool" where
  "keyed d \<longleftrightarrow> distinct (map fst d) \<and> (\<forall>(k, c) \<in> set d. k = comboKey c)"

text \<open>
  The module as it is first loaded with nothing stored (\<open>deck = null\<close>, \<open>clock = 0\<close>),
  and the states that \<open>ensureDeck\<close> followed by calls of \<open>recordAnswer\<close> lead to from
  there.
\<close>

definition initialState :: state where
  "initialState = \<lparr>deckBlob = None, statsBlob = None, deck = None, clock = 0\<rparr>"

inductive reachable :: "Combo list \<Rightarrow> state \<Rightarrow> bool" for combos :: "Combo list" where
  fresh: "ensureDeck combos initialState = Returns d st \<Longrightarrow> reachable combos st"
| answer: "reachable combos st \<Longrightarrow> recordAnswer combos h p correct st = Returns () st' \<Longrightarrow>
           reachable combos st'"

code_pred reachable .

text \<open>What holds of every card in a state reached from a fresh deck.\<close>

definition cardInv :: "CardState \<Rightarrow> bool" where
  "cardInv c \<longleftrightarrow> 0 \<le> repetitions c \<and> 13 / 10 \<le> ease c \<and> 0 \<le> interval c \<and>
     (1 \<le> repetitions c \<longrightarrow> 1 \<le> interval c) \<and> (interval c = 0 \<longrightarrow> repetitions c = 0) \<and>
     lastSeen c \<le> due c \<and> (due c = lastSeen c \<longrightarrow> interval c = 0)"

definition stateInv :: "state \<Rightarrow> bool" where
  "stateInv st \<longleftrightarrow>
     (case deck st of None \<Rightarrow> False | Some d \<Rightarrow> \<forall>c \<in> set (Map_values d). cardInv c) \<and>
     (case loadStats st of Inr (Typed s) \<Rightarrow> True | _ \<Rightarrow> False)"

text \<open>
  Ticks are not negative: the clock starts at 0 and only grows, a card that was never
  seen has \<open>lastSeen = -1\<close>.
\<close>

definition tickInv :: "state \<Rightarrow> bool" where
  "tickInv st \<longleftrightarrow> 0 \<le> clock st \<and>
     (case deck st of None \<Rightarrow> False
      | Some d \<Rightarrow> \<forall>c \<in> set (Map_values d). 0 \<le> due c \<and> - 1 \<le> lastSeen c)"

subsection \<open>Examples\<close>

text \<open>A catalog of one identity and the deck that \<open>ensureDeck\<close> builds for it.\<close>

definition exampleCombos :: "Combo list" where
  "exampleCombos = [\<lparr>hand = ''AKs'', position = ''UTG''\<rparr>]"

definition exampleCard :: CardState where
  "exampleCard = freshCard \<lparr>hand = ''AKs'', position = ''UTG''\<rparr>"

definition exampleState :: state where
  "exampleState = \<lparr>deckBlob = None, statsBlob = None,
                    deck = Some [(''AKs|UTG'', exampleCard)], clock = 0\<rparr>"

text \<open>
  The example of the specification: four cards with \<open>due\<close> 5, 5, 6 and 9, and the clock
  at 7.
\<close>

definition windowCard :: "string \<Rightarrow> int \<Rightarrow> CardState" where
  "windowCard h n = \<lparr>hand = h, position = ''UTG'', interval = 0, ease = 5 / 2,
                     repetitions = 0, due = n, lastSeen = - 1\<rparr>"

definition windowDeck :: Deck where
  "windowDeck = [(''AA|UTG'', windowCard ''AA'' 5), (''KK|UTG'', windowCard ''KK'' 5),
                 (''QQ|UTG'', windowCard ''QQ'' 6), (''JJ|UTG'', windowCard ''JJ'' 9)]"

definition windowState :: state where
  "windowState = \<lparr>deckBlob = None, statsBlob = None, deck = Some windowDeck, clock = 7\<rparr>"

text \<open>A stored deck of two cards, with the module not yet loaded.\<close>

definition storedCards :: "CardState list" where
  "storedCards =
     [\<lparr>hand = ''AKs'', position = ''UTG'', interval = 8, ease = 14 / 5, repetitions = 3,
       due = 9, lastSeen = 1\<rparr>,
      \<lparr>hand = ''72o'', position = ''Blinds'', interval = 0, ease = 11 / 5, repetitions = 0,
       due = 10, lastSeen = 10\<rparr>]"

definition storedState :: state where
  "storedState = \<lparr>deckBlob = Some (JSON_stringify (JArr (map CardState_json storedCards))),
                   statsBlob = None, deck = None, clock = 0\<rparr>"

text \<open>The Map that \<open>loadDeck\<close> makes of the stored cards.\<close>

definition storedDeck :: Deck where
  "storedDeck = map (\<lambda>c. (comboKey c, c)) storedCards"



section \<open>Properties\<close>

subsection \<open>Facts about the Map\<close>

lemma Map_get_set_same: "Map_get (Map_set m k v) k = Some v"
  by (induction m) (auto simp: Map_get_def)

lemma Map_get_set_other: "k' \<noteq> k \<Longrightarrow> Map_get (Map_set m k v) k' = Map_get m k'"
  by (induction m) (auto simp: Map_get_def)

lemma values_Map_set: "set (Map_values (Map_set m k v)) \<subseteq> insert v (set (Map_values m))"
  by (induction m) (force simp: Map_values_def split: if_splits)+

lemma Map_get_values: "Map_get m k = Some v \<Longrightarrow> v \<in> set (Map_values m)"
  unfolding Map_get_def Map_values_def by (metis map_of_SomeD image_eqI set_map snd_conv)

lemma Map_set_new: "k \<notin> fst ` set m \<Longrightarrow> Map_set m k v = m @ [(k, v)]"
  by (induction m) auto

lemma keys_Map_set: "fst ` set (Map_set m k v) = insert k (fst ` set m)"
proof (induction m)
  case Nil
  then show ?case by simp
next
  case (Cons e m)
  obtain k' v' where e: "e = (k', v')" by (cases e)
  show ?case
  proof (cases "k' = k")
    case True
    then show ?thesis using e by simp
  next
    case False
    then show ?thesis using e Cons.IH by (simp add: insert_commute)
  qed
qed

lemma distinct_Map_set: "distinct (map fst m) \<Longrightarrow> distinct (map fst (Map_set m k v))"
proof (induction m)
  case Nil
  then show ?case by simp
next
  case (Cons e m)
  obtain k' v' where e: "e = (k', v')" by (cases e)
  show ?case
  proof (cases "k' = k")
    case True
    then show ?thesis using Cons.prems e by simp
  next
    case False
    have "k' \<notin> fst ` set (Map_set m k v)"
      using Cons.prems e False by (simp add: keys_Map_set)
    then show ?thesis using Cons e False by simp
  qed
qed

lemma entries_Map_set: "set (Map_set m k v) \<subseteq> insert (k, v) (set m)"
  by (induction m) (force split: if_splits)+

lemma Map_has_Map_set: "Map_has (Map_set m k v) k' \<longleftrightarrow> k' = k \<or> Map_has m k'"
  by (cases "k' = k")
    (simp_all add: Map_has_def Map_get_set_same [unfolded Map_get_def]
      Map_get_set_other [unfolded Map_get_def])

lemma in_set_nonempty: "x \<in> set xs \<Longrightarrow> xs \<noteq> []"
  by auto

subsection \<open>Loading and saving\<close>

lemma asStats_Stats_json: "asStats (Stats_json s) = Some s"
  by (simp add: asStats_def Stats_json_def)

lemma asCardState_CardState_json: "asCardState (CardState_json c) = Some c"
  by (simp add: asCardState_def CardState_json_def)


lemma loadStats_cong: "statsBlob st' = statsBlob st \<Longrightarrow> loadStats st' = loadStats st"
  by (simp add: loadStats_def loadStats_try_def)


lemma loadStats_no_blob: "statsBlob st = None \<Longrightarrow> loadStats st = Inr (Typed defaultStats)"
  by (simp add: loadStats_def loadStats_try_def)



lemma loadStats_initialState: "loadStats initialState = Inr (Typed defaultStats)"
  by (simp add: loadStats_def loadStats_try_def initialState_def)

lemma loadStats_example: "loadStats exampleState = Inr (Typed defaultStats)"
  by (simp add: exampleState_def loadStats_def loadStats_try_def)


lemma loadDeck_no_blob: "deckBlob st = None \<Longrightarrow> loadDeck st = Inr (Typed [])"
  by (simp add: loadDeck_def loadDeck_try_def)





lemma loadDeck_loop_Untyped:
  "loadDeck_loop elems (Untyped j) arr = Inr v \<Longrightarrow> \<exists>j'. v = Untyped j'"
proof (induction elems arbitrary: j)
  case Nil
  then show ?case by auto
next
  case (Cons e elems)
  then show ?case by (auto split: if_splits option.splits)
qed

lemma loadDeck_loop_cards:
  "loadDeck_loop (map CardState_json cs) (Typed m) arr =
     Inr (Typed (foldl (\<lambda>m c. Map_set m (comboKey c) c) m cs))"
proof (induction cs arbitrary: m)
  case Nil
  then show ?case by simp
next
  case (Cons c cs)
  have "loadDeck_loop (CardState_json c # map CardState_json cs) (Typed m) arr =
          loadDeck_loop (map CardState_json cs) (Typed (Map_set m (comboKey c) c)) arr"
    using asCardState_CardState_json [of c] by (simp add: CardState_json_def)
  then show ?case using Cons.IH by simp
qed

lemma loadDeck_initialState: "loadDeck initialState = Inr (Typed [])"
  by (simp add: loadDeck_def loadDeck_try_def initialState_def)

subsection \<open>Facts about ensureDeck\<close>

lemma ensureDeck_loaded: "deck st = Some d \<Longrightarrow> ensureDeck combos st = Returns d st"
  by (simp add: ensureDeck_def)

lemma ensureDeck_Returns:
  assumes "ensureDeck combos st = Returns d st1"
  shows "deck st1 = Some d" "deckBlob st1 = deckBlob st" "statsBlob st1 = statsBlob st"
    "deck st \<noteq> None \<Longrightarrow> st1 = st"
  using assms
  by (auto simp: ensureDeck_def Let_def split: option.splits sum.splits js.splits)

lemma ensureDeck_unloaded:
  assumes "deck st = None" "loadDeck st = Inr (Typed d0)"
  shows "ensureDeck combos st =
           Returns (foldl addCombo d0 combos)
             (st\<lparr>deck := Some (foldl addCombo d0 combos),
                 clock := foldl clockStep (clock st) (Map_values (foldl addCombo d0 combos))\<rparr>)"
  using assms by (simp add: ensureDeck_def Let_def)

lemma deck_initialState: "deck initialState = None"
  by (simp add: initialState_def)

lemma ensureDeck_clock:
  assumes "deck st = None" "ensureDeck combos st = Returns d st1"
  shows "clock st1 = foldl clockStep (clock st) (Map_values d)"
  using assms by (auto simp: ensureDeck_def Let_def split: sum.splits js.splits)

lemma values_addCombo:
  "c \<in> set (Map_values (foldl addCombo d0 combos)) \<Longrightarrow>
   c \<in> set (Map_values d0) \<or> (\<exists>x \<in> set combos. c = freshCard x)"
proof (induction combos arbitrary: d0)
  case Nil
  then show ?case by simp
next
  case (Cons x xs)
  from Cons.IH [OF Cons.prems [simplified]]
  consider "c \<in> set (Map_values (addCombo d0 x))" | "\<exists>y \<in> set xs. c = freshCard y"
    by blast
  then show ?case
  proof cases
    case 1
    then have "c \<in> set (Map_values d0) \<or> c = freshCard x"
      using values_Map_set [of d0 "comboKey x" "freshCard x"]
      by (auto simp: addCombo_def split: if_splits)
    then show ?thesis by auto
  next
    case 2
    then show ?thesis by auto
  qed
qed

lemma entries_addCombo:
  "(k, c) \<in> set (foldl addCombo d0 combos) \<Longrightarrow>
   (k, c) \<in> set d0 \<or> (\<exists>x \<in> set combos. k = comboKey x \<and> c = freshCard x)"
proof (induction combos arbitrary: d0)
  case Nil
  then show ?case by simp
next
  case (Cons x xs)
  from Cons.IH [OF Cons.prems [simplified]]
  consider "(k, c) \<in> set (addCombo d0 x)" | "\<exists>y \<in> set xs. k = comboKey y \<and> c = freshCard y"
    by blast
  then show ?case
  proof cases
    case 1
    then have "(k, c) \<in> set d0 \<or> (k = comboKey x \<and> c = freshCard x)"
      using entries_Map_set [of d0 "comboKey x" "freshCard x"]
      by (auto simp: addCombo_def split: if_splits)
    then show ?thesis by auto
  next
    case 2
    then show ?thesis by auto
  qed
qed

lemma Map_has_addCombo: "Map_has (addCombo d x) k \<longleftrightarrow> k = comboKey x \<or> Map_has d k"
  by (auto simp: addCombo_def Map_has_Map_set)

lemma Map_has_foldl_addCombo:
  "Map_has (foldl addCombo d combos) k \<longleftrightarrow> k \<in> comboKey ` set combos \<or> Map_has d k"
  by (induction combos arbitrary: d) (auto simp: Map_has_addCombo)

lemma comboKey_freshCard: "comboKey (freshCard x) = comboKey x"
  by (simp add: comboKey_def freshCard_def)

lemma clockStep_max: "clockStep clk cs = max clk (entryTick cs)"
  by (auto simp: clockStep_def entryTick_def Let_def max_def)

lemma Max_insert_max:
  fixes a b :: int
  assumes "finite S"
  shows "Max (insert (max a b) S) = Max (insert a (insert b S))"
proof (cases "S = {}")
  case True
  then show ?thesis by (simp add: max.commute)
next
  case False
  then show ?thesis using assms by (simp add: max.assoc)
qed

lemma foldl_clockStep: "foldl clockStep clk cards = Max (insert clk (entryTick ` set cards))"
proof (induction cards arbitrary: clk)
  case Nil
  then show ?case by simp
next
  case (Cons x xs)
  have "foldl clockStep clk (x # xs) = foldl clockStep (max clk (entryTick x)) xs"
    by (simp add: clockStep_max)
  also have "\<dots> = Max (insert (max clk (entryTick x)) (entryTick ` set xs))"
    by (rule Cons.IH)
  also have "\<dots> = Max (insert clk (insert (entryTick x) (entryTick ` set xs)))"
    by (rule Max_insert_max) simp
  finally show ?case by simp
qed

lemma foldl_clockStep_ge: "clk \<le> foldl clockStep clk cards"
  unfolding foldl_clockStep by (rule Max_ge) simp_all

subsection \<open>Facts about recordAnswer\<close>

lemma updateCard_correct:
  "updateCard True clk c =
     c\<lparr>repetitions := repetitions c + 1,
       interval := (if repetitions c + 1 = 1 then 1 else if repetitions c + 1 = 2 then 3
                    else round (of_int (interval c) * ease c)),
       ease := max (13 / 10) (ease c + 1 / 10),
       due := clk + (if repetitions c + 1 = 1 then 1 else if repetitions c + 1 = 2 then 3
                    else round (of_int (interval c) * ease c)),
       lastSeen := clk\<rparr>"
  by (simp add: updateCard_def Let_def)

lemma updateCard_incorrect:
  "updateCard False clk c =
     c\<lparr>repetitions := 0, interval := 0, ease := max (13 / 10) (ease c - 3 / 10),
       due := clk, lastSeen := clk\<rparr>"
  by (simp add: updateCard_def Let_def)

lemma comboKey_updateCard: "comboKey (updateCard correct clk c) = comboKey c"
  by (cases correct) (simp_all add: comboKey_def updateCard_correct updateCard_incorrect)


lemma recordAnswer_found:
  assumes "ensureDeck combos st = Returns d st1" "Map_get d (h @ ''|'' @ p) = Some c"
    "loadStats st = Inr (Typed s)"
  shows "recordAnswer combos h p correct st = Returns () (answered correct (h @ ''|'' @ p) s d c st1)"
proof -
  have "statsBlob (st1\<lparr>clock := clock st1 + 1\<rparr>) = statsBlob st"
    using ensureDeck_Returns(3) [OF assms(1)] by simp
  then have ls: "loadStats (st1\<lparr>clock := clock st1 + 1\<rparr>) = Inr (Typed s)"
    using assms(3) loadStats_cong by metis
  show ?thesis
    unfolding recordAnswer_def assms(1)
    using assms(2) ls
    by (simp add: answered_def Let_def saveStats_def saveDeck_def)
qed

lemma recordAnswer_missing:
  assumes "ensureDeck combos st = Returns d st1" "Map_get d (h @ ''|'' @ p) = None"
  shows "recordAnswer combos h p correct st = Returns () st1"
  unfolding recordAnswer_def assms(1) using assms(2) by simp

lemma deck_answered: "deck (answered correct key s d c st) = Some (Map_set d key (updateCard correct (clock st + 1) c))"
  by (simp add: answered_def Let_def)

lemma clock_answered: "clock (answered correct key s d c st) = clock st + 1"
  by (simp add: answered_def Let_def)

lemma loadStats_answered: "loadStats (answered correct key s d c st) = Inr (Typed (updateStats correct s))"
  by (simp add: answered_def Let_def loadStats_def loadStats_try_def JSON_stringify_def truthy_def
      castStats_def asStats_Stats_json)

lemma cardOf_answered:
  "cardOf (answered correct (h @ ''|'' @ p) s d c st) h p = Some (updateCard correct (clock st + 1) c)"
  by (simp add: cardOf_def deck_answered Map_get_set_same)




subsection \<open>Decks keyed by identity\<close>

lemma keyed_Nil: "keyed []"
  by (simp add: keyed_def)

lemma keyed_Map_set:
  assumes "keyed m" "k = comboKey c"
  shows "keyed (Map_set m k c)"
  using assms entries_Map_set [of m k c] distinct_Map_set [of m k c]
  by (auto simp: keyed_def)

lemma keyed_Map_get: "keyed d \<Longrightarrow> Map_get d k = Some c \<Longrightarrow> k = comboKey c"
  unfolding keyed_def Map_get_def by (auto dest: map_of_SomeD)

lemma keyed_addCombo: "keyed d \<Longrightarrow> keyed (addCombo d x)"
  by (simp add: addCombo_def keyed_Map_set comboKey_freshCard)

lemma keyed_foldl_addCombo: "keyed d \<Longrightarrow> keyed (foldl addCombo d combos)"
  by (induction combos arbitrary: d) (simp_all add: keyed_addCombo)

lemma keyed_loadDeck_loop:
  "loadDeck_loop elems (Typed m) arr = Inr (Typed d) \<Longrightarrow> keyed m \<Longrightarrow> keyed d"
proof (induction elems arbitrary: m)
  case Nil
  then show ?case by simp
next
  case (Cons e elems)
  show ?case
  proof (cases "asCardState e")
    case None
    then have "loadDeck_loop elems (Untyped arr) arr = Inr (Typed d)"
      using Cons.prems(1) by (simp split: if_splits)
    then show ?thesis using loadDeck_loop_Untyped by blast
  next
    case (Some c)
    then have "loadDeck_loop elems (Typed (Map_set m (comboKey c) c)) arr = Inr (Typed d)"
      using Cons.prems(1) by (simp split: if_splits)
    moreover have "keyed (Map_set m (comboKey c) c)"
      using Cons.prems(2) by (simp add: keyed_Map_set)
    ultimately show ?thesis by (rule Cons.IH)
  qed
qed

lemma keyed_loadDeck: "loadDeck st = Inr (Typed d) \<Longrightarrow> keyed d"
  by (auto simp: loadDeck_def loadDeck_try_def keyed_Nil map_sum_def
      split: option.splits sum.splits if_splits json.splits
      dest: keyed_loadDeck_loop [OF _ keyed_Nil])

lemma keyed_ensureDeck:
  assumes "ensureDeck combos st = Returns d st1" "\<forall>d0. deck st = Some d0 \<longrightarrow> keyed d0"
  shows "keyed d"
proof (cases "deck st")
  case None
  then obtain d0 where l: "loadDeck st = Inr (Typed d0)" and d: "d = foldl addCombo d0 combos"
    using assms(1) by (auto simp: ensureDeck_def Let_def split: sum.splits js.splits)
  show ?thesis unfolding d using keyed_loadDeck [OF l] by (rule keyed_foldl_addCombo)
next
  case (Some d0)
  then show ?thesis using assms by (simp add: ensureDeck_def)
qed

lemma keyed_recordAnswer:
  assumes "deck st = Some d" "keyed d" "recordAnswer combos h p correct st = Returns () st'"
  shows "\<exists>d'. deck st' = Some d' \<and> keyed d'"
proof -
  have ed: "ensureDeck combos st = Returns d st" using assms(1) by (rule ensureDeck_loaded)
  show ?thesis
  proof (cases "Map_get d (h @ ''|'' @ p)")
    case None
    then show ?thesis using recordAnswer_missing [OF ed None, of correct] assms by simp
  next
    case (Some c)
    have k: "h @ ''|'' @ p = comboKey (updateCard correct (clock st + 1) c)"
      using keyed_Map_get [OF assms(2) Some] by (simp add: comboKey_updateCard)
    have "\<exists>d'. deck st' = Some d' \<and> (\<exists>s. d' = Map_set d (h @ ''|'' @ p) (updateCard correct (clock st + 1) c))"
      using assms(3) ed Some
      by (auto simp: recordAnswer_def Let_def saveDeck_def saveStats_def
          split: sum.splits js.splits)
    then show ?thesis using keyed_Map_set [OF assms(2) k] by auto
  qed
qed

text \<open>
  The key \<open>hand|position\<close> determines the identity when no hand contains the bar, and
  then an identity that no card of the deck has is a key that is not in the deck.
\<close>

lemma comboKey_inj:
  assumes "comboKey a = comboKey b" "CHR ''|'' \<notin> set (hand a)" "CHR ''|'' \<notin> set (hand b)"
  shows "hand a = hand b \<and> position a = position b"
proof -
  have t: "takeWhile (\<lambda>x. x \<noteq> CHR ''|'') (h @ ''|'' @ p) = h" if "CHR ''|'' \<notin> set h" for h p
    using that by (induction h) auto
  have "takeWhile (\<lambda>x. x \<noteq> CHR ''|'') (comboKey a) = takeWhile (\<lambda>x. x \<noteq> CHR ''|'') (comboKey b)"
    using assms(1) by simp
  then have h: "hand a = hand b"
    using t [OF assms(2)] t [OF assms(3)] by (simp add: comboKey_def)
  then show ?thesis using assms(1) by (simp add: comboKey_def)
qed

lemma no_card_no_key:
  assumes "keyed d" "CHR ''|'' \<notin> set h"
    and "\<forall>c \<in> set (Map_values d). CHR ''|'' \<notin> set (hand c) \<and> \<not> (hand c = h \<and> position c = p)"
  shows "Map_get d (h @ ''|'' @ p) = None"
proof (rule ccontr)
  assume "Map_get d (h @ ''|'' @ p) \<noteq> None"
  then obtain c where c: "Map_get d (h @ ''|'' @ p) = Some c" by auto
  have k: "comboKey c = comboKey \<lparr>hand = h, position = p\<rparr>"
    using keyed_Map_get [OF assms(1) c] by (simp add: comboKey_def)
  have m: "c \<in> set (Map_values d)" using c by (rule Map_get_values)
  then have "CHR ''|'' \<notin> set (hand c)" using assms(3) by blast
  with k assms(2) have "hand c = h \<and> position c = p"
    using comboKey_inj [of c "\<lparr>hand = h, position = p\<rparr>"] by simp
  with m assms(3) show False by blast
qed

lemma rekey:
  assumes "distinct (map fst (acc @ d))" "\<forall>(k, c) \<in> set d. k = comboKey c"
  shows "foldl (\<lambda>m c. Map_set m (comboKey c) c) acc (map snd d) = acc @ d"
  using assms
proof (induction d arbitrary: acc)
  case Nil
  then show ?case by simp
next
  case (Cons e d)
  obtain k c where e: "e = (k, c)" by (cases e)
  have k: "k = comboKey c" using Cons.prems(2) e by simp
  have "k \<notin> fst ` set acc" using Cons.prems(1) e by auto
  then have s: "Map_set acc (comboKey c) c = acc @ [e]"
    using k e by (simp add: Map_set_new)
  have "foldl (\<lambda>m c. Map_set m (comboKey c) c) (acc @ [e]) (map snd d) = (acc @ [e]) @ d"
    using Cons.prems by (intro Cons.IH) auto
  then show ?case using s e by simp
qed

lemma loadDeck_saveDeck:
  assumes "keyed d"
  shows "loadDeck (saveDeck d st) = Inr (Typed d)"
proof -
  have "foldl (\<lambda>m c. Map_set m (comboKey c) c) [] (map snd d) = [] @ d"
    using assms by (intro rekey) (simp_all add: keyed_def)
  then have "loadDeck_loop (map CardState_json (Map_values d)) (Typed []) arr = Inr (Typed d)" for arr
    by (simp add: loadDeck_loop_cards Map_values_def del: map_map)
  then show ?thesis
    by (simp add: loadDeck_def loadDeck_try_def saveDeck_def JSON_stringify_def truthy_def)
qed

subsection \<open>States reached from a fresh deck\<close>

lemma stateInv_iff:
  "stateInv st \<longleftrightarrow> (\<exists>d. deck st = Some d \<and> (\<forall>c \<in> set (Map_values d). cardInv c)) \<and>
     (\<exists>s. loadStats st = Inr (Typed s))"
  by (auto simp: stateInv_def split: option.splits sum.splits js.splits)

lemma tickInv_iff:
  "tickInv st \<longleftrightarrow> 0 \<le> clock st \<and>
     (\<exists>d. deck st = Some d \<and> (\<forall>c \<in> set (Map_values d). 0 \<le> due c \<and> - 1 \<le> lastSeen c))"
  by (auto simp: tickInv_def split: option.splits)

lemma round_ge_1:
  fixes e :: rat
  assumes "1 \<le> i" "13 / 10 \<le> e"
  shows "1 \<le> round (of_int i * e)"
proof -
  have "(1::rat) \<le> of_int i" using assms(1) by simp
  then have "1 * (13 / 10) \<le> of_int i * e"
    using assms(2) by (intro mult_mono) simp_all
  then have "of_int 1 \<le> of_int i * e + 1 / 2" by simp
  then show ?thesis unfolding round_def by (simp only: le_floor_iff)
qed

lemma cardInv_updateCard:
  assumes "cardInv c"
  shows "cardInv (updateCard correct clk c)"
proof (cases correct)
  case False
  then show ?thesis by (simp add: updateCard_incorrect cardInv_def)
next
  case True
  have r: "2 \<le> repetitions c \<Longrightarrow> 1 \<le> round (of_int (interval c) * ease c)"
    using assms by (intro round_ge_1) (simp_all add: cardInv_def)
  show ?thesis
    using assms True r by (auto simp: updateCard_correct cardInv_def)
qed

lemma cardInv_freshCard: "cardInv (freshCard c)"
  by (simp add: cardInv_def freshCard_def)

lemma stateInv_fresh:
  assumes "ensureDeck combos initialState = Returns d st"
  shows "stateInv st"
proof -
  have d: "d = foldl addCombo [] combos"
    using assms ensureDeck_unloaded [OF deck_initialState loadDeck_initialState, of combos] by simp
  have "cardInv c" if "c \<in> set (Map_values d)" for c
    using values_addCombo [of c "[]" combos] that d
    by (auto simp: Map_values_def cardInv_freshCard)
  moreover have "loadStats st = Inr (Typed defaultStats)"
    using loadStats_cong [OF ensureDeck_Returns(3) [OF assms]] loadStats_initialState by simp
  ultimately show ?thesis
    using ensureDeck_Returns(1) [OF assms] by (auto simp: stateInv_iff)
qed

lemma stateInv_recordAnswer:
  assumes "stateInv st"
  shows "\<exists>st'. recordAnswer combos h p correct st = Returns () st' \<and> stateInv st'"
proof -
  from assms obtain d s where d: "deck st = Some d" and s: "loadStats st = Inr (Typed s)"
    and inv: "\<forall>c \<in> set (Map_values d). cardInv c"
    by (auto simp: stateInv_iff)
  have ed: "ensureDeck combos st = Returns d st"
    using d by (rule ensureDeck_loaded)
  show ?thesis
  proof (cases "Map_get d (h @ ''|'' @ p)")
    case None
    then show ?thesis using recordAnswer_missing [OF ed None] assms by simp
  next
    case (Some c)
    let ?st' = "answered correct (h @ ''|'' @ p) s d c st"
    have "cardInv c" using inv Map_get_values [OF Some] by simp
    then have "cardInv (updateCard correct (clock st + 1) c)" by (rule cardInv_updateCard)
    then have "\<forall>x \<in> set (Map_values (Map_set d (h @ ''|'' @ p) (updateCard correct (clock st + 1) c))). cardInv x"
      using inv values_Map_set [of d "h @ ''|'' @ p" "updateCard correct (clock st + 1) c"] by auto
    then have "stateInv ?st'"
      by (simp add: stateInv_iff deck_answered loadStats_answered)
    then show ?thesis using recordAnswer_found [OF ed Some s] by simp
  qed
qed

lemma reachable_stateInv: "reachable combos st \<Longrightarrow> stateInv st"
proof (induction rule: reachable.induct)
  case (fresh d st)
  then show ?case by (rule stateInv_fresh)
next
  case (answer st h p correct st')
  then show ?case using stateInv_recordAnswer [of st combos h p correct] by simp
qed

lemma reachable_keyed: "reachable combos st \<Longrightarrow> \<exists>d. deck st = Some d \<and> keyed d"
proof (induction rule: reachable.induct)
  case (fresh d st)
  have "keyed d" using fresh by (rule keyed_ensureDeck) (simp add: initialState_def)
  then show ?case using ensureDeck_Returns(1) [OF fresh] by simp
next
  case (answer st h p correct st')
  then show ?case using keyed_recordAnswer by blast
qed

lemma tickInv_fresh:
  assumes "ensureDeck combos initialState = Returns d st"
  shows "tickInv st"
proof -
  have d: "d = foldl addCombo [] combos"
    and c: "clock st = foldl clockStep 0 (Map_values d)"
    using assms ensureDeck_unloaded [OF deck_initialState loadDeck_initialState, of combos]
    by (simp_all add: initialState_def)
  have "0 \<le> due c \<and> - 1 \<le> lastSeen c" if "c \<in> set (Map_values d)" for c
    using values_addCombo [of c "[]" combos] that d
    by (auto simp: Map_values_def freshCard_def)
  moreover have "0 \<le> clock st" unfolding c by (rule foldl_clockStep_ge)
  ultimately show ?thesis
    using ensureDeck_Returns(1) [OF assms] by (auto simp: tickInv_iff)
qed

lemma tickInv_recordAnswer:
  assumes "stateInv st" "tickInv st" "recordAnswer combos h p correct st = Returns () st'"
  shows "tickInv st'"
proof -
  from assms(1) obtain d s where d: "deck st = Some d" and s: "loadStats st = Inr (Typed s)"
    and inv: "\<forall>c \<in> set (Map_values d). cardInv c"
    by (auto simp: stateInv_iff)
  have t: "0 \<le> clock st" "\<forall>c \<in> set (Map_values d). 0 \<le> due c \<and> - 1 \<le> lastSeen c"
    using assms(2) d by (auto simp: tickInv_iff)
  have ed: "ensureDeck combos st = Returns d st"
    using d by (rule ensureDeck_loaded)
  show ?thesis
  proof (cases "Map_get d (h @ ''|'' @ p)")
    case None
    then show ?thesis using recordAnswer_missing [OF ed None, of correct] assms(2,3) by simp
  next
    case (Some c)
    let ?c' = "updateCard correct (clock st + 1) c"
    have st': "st' = answered correct (h @ ''|'' @ p) s d c st"
      using recordAnswer_found [OF ed Some s, of correct] assms(3) by simp
    have "cardInv c" using inv Map_get_values [OF Some] by simp
    then have "cardInv ?c'" by (rule cardInv_updateCard)
    then have i: "0 \<le> interval ?c'" by (simp add: cardInv_def)
    have "due ?c' = clock st + 1 + interval ?c'" "lastSeen ?c' = clock st + 1"
      by (cases correct; simp add: updateCard_correct updateCard_incorrect)+
    then have n: "0 \<le> due ?c' \<and> - 1 \<le> lastSeen ?c'" using i t(1) by simp
    have "\<forall>x \<in> set (Map_values (Map_set d (h @ ''|'' @ p) ?c')). 0 \<le> due x \<and> - 1 \<le> lastSeen x"
      using n t(2) values_Map_set [of d "h @ ''|'' @ p" ?c'] by blast
    then show ?thesis
      unfolding st' tickInv_iff using t(1) by (simp add: deck_answered clock_answered)
  qed
qed

lemma reachable_tickInv: "reachable combos st \<Longrightarrow> tickInv st"
proof (induction rule: reachable.induct)
  case (fresh d st)
  then show ?case by (rule tickInv_fresh)
next
  case (answer st h p correct st')
  then show ?case using tickInv_recordAnswer reachable_stateInv by blast
qed

text \<open>
  Every entry of a state reached from a fresh deck contributes a tick that is not
  negative to the clock on load.
\<close>

lemma reachable_entryTick:
  assumes "reachable combos st" "cardAt st k = Some c"
  shows "0 \<le> entryTick c"
proof -
  from reachable_tickInv [OF assms(1)] obtain d where
    d: "deck st = Some d" "\<forall>c \<in> set (Map_values d). 0 \<le> due c \<and> - 1 \<le> lastSeen c"
    by (auto simp: tickInv_iff)
  have "c \<in> set (Map_values d)"
    using assms(2) d(1) Map_get_values [of d k c] by (simp add: cardAt_def)
  then show ?thesis using d(2) by (auto simp: entryTick_def)
qed

subsection \<open>The examples\<close>

lemma ensureDeck_example:
  "ensureDeck exampleCombos initialState = Returns [(''AKs|UTG'', exampleCard)] exampleState"
  using ensureDeck_unloaded [OF deck_initialState loadDeck_initialState, of exampleCombos]
  by (simp add: exampleCombos_def addCombo_def Map_has_def comboKey_def exampleCard_def
      Map_values_def clockStep_def freshCard_def exampleState_def initialState_def)

lemma reachable_example: "reachable exampleCombos exampleState"
  using ensureDeck_example by (rule reachable.fresh)

lemma deck_example: "deck exampleState = Some [(''AKs|UTG'', exampleCard)]"
  by (simp add: exampleState_def)

lemma cardAt_example: "cardAt exampleState ''AKs|UTG'' = Some exampleCard"
  by (simp add: cardAt_def exampleState_def Map_get_def)


lemma ensureDeck_exampleState:
  "ensureDeck [] exampleState = Returns [(''AKs|UTG'', exampleCard)] exampleState"
  using deck_example by (rule ensureDeck_loaded)

lemma ensureDeck_windowState: "ensureDeck combos windowState = Returns windowDeck windowState"
  by (rule ensureDeck_loaded) (simp add: windowState_def)

lemma window_has_due: "\<exists>c \<in> set (Map_values windowDeck). due c \<le> clock windowState"
  by (simp add: windowDeck_def Map_values_def windowCard_def windowState_def)


lemma keyed_storedDeck: "keyed storedDeck"
  by (simp add: keyed_def storedDeck_def storedCards_def comboKey_def)

lemma storedState_saved: "storedState = saveDeck storedDeck initialState"
  by (simp add: storedState_def saveDeck_def initialState_def storedDeck_def Map_values_def comp_def)

lemma loadDeck_storedState: "loadDeck storedState = Inr (Typed storedDeck)"
  unfolding storedState_saved using keyed_storedDeck by (rule loadDeck_saveDeck)

lemma ensureDeck_storedState:
  "ensureDeck [] storedState = Returns storedDeck (storedState\<lparr>deck := Some storedDeck, clock := 11\<rparr>)"
proof -
  have d: "deck storedState = None" by (simp add: storedState_def)
  have c: "foldl clockStep (clock storedState) (Map_values storedDeck) = 11"
    by (simp add: storedState_def storedDeck_def storedCards_def Map_values_def clockStep_def)
  show ?thesis
    using ensureDeck_unloaded [OF d loadDeck_storedState, of "[]"] c by simp
qed

subsection \<open>The update rule on three correct answers\<close>



text \<open>
  The third interval does not hang on the exact value of the ease: every ease from 2.6
  to 2.8 gives 8, so the rounding of \<open>2.5 + 0.1 + 0.1\<close> in a double, which is of the
  order of \<open>1e-16\<close>, cannot change it.
\<close>

lemma third_interval_robust:
  fixes e :: rat
  assumes "repetitions c = 2" "interval c = 3" "ease c = e" "13 / 5 \<le> e" "e \<le> 14 / 5"
  shows "interval (updateCard True clk c) = 8"
proof -
  have "of_int 8 \<le> 3 * e + 1 / 2" using assms(4) by simp
  moreover have "3 * e + 1 / 2 < of_int 8 + 1" using assms(5) by simp
  ultimately have "\<lfloor>3 * e + 1 / 2\<rfloor> = 8" by (rule floor_unique)
  then have "round (3 * e) = 8" by (simp add: round_def)
  then show ?thesis using assms(1-3) by (simp add: updateCard_correct)
qed

subsection \<open>Selection within the due window\<close>

lemma pick_in_pool:
  assumes "pool \<noteq> []" "0 \<le> rnd" "rnd < 1"
  shows "\<exists>c \<in> set pool. pick pool rnd st = Returns c st"
proof -
  let ?n = "length pool"
  let ?idx = "\<lfloor>rnd * of_nat ?n\<rfloor>"
  have n: "0 < ?n" using assms(1) by simp
  have "0 \<le> rnd * of_nat ?n" using assms(2) by simp
  then have lo: "0 \<le> ?idx" by simp
  have "rnd * of_nat ?n < 1 * of_nat ?n"
    using assms(3) n by (intro mult_strict_right_mono) simp_all
  then have "rnd * of_nat ?n < of_int (int ?n)" by simp
  then have hi: "?idx < int ?n" by (simp only: floor_less_iff)
  have "nat ?idx < ?n" using lo hi by (simp only: nat_less_iff)
  then have "pool ! nat ?idx \<in> set pool" by simp
  moreover have "pick pool rnd st = Returns (pool ! nat ?idx) st"
    using lo hi by (simp add: pick_def Let_def)
  ultimately show ?thesis by blast
qed

lemma sorted_first_least:
  assumes "sorted (map f ys)" "ys \<noteq> []"
  shows "ys ! 0 \<in> set ys \<and> (\<forall>y \<in> set ys. f (ys ! 0) \<le> f y)"
  using assms by (cases ys) auto

lemma sort_key_first:
  fixes f :: "'a \<Rightarrow> int"
  assumes "xs \<noteq> []"
  shows "f (sort_key f xs ! 0) = Min (f ` set xs)" "sort_key f xs ! 0 \<in> set xs"
proof -
  let ?ys = "sort_key f xs"
  have ne: "?ys \<noteq> []" using assms by (metis length_sort length_0_conv)
  have s: "sorted (map f ?ys)" by (rule sorted_sort_key)
  from sorted_first_least [OF s ne]
  have m: "?ys ! 0 \<in> set xs" and l: "\<forall>y \<in> set xs. f (?ys ! 0) \<le> f y" by simp_all
  show "?ys ! 0 \<in> set xs" by (rule m)
  show "f (?ys ! 0) = Min (f ` set xs)"
  proof (rule sym, rule Min_eqI)
    show "finite (f ` set xs)" by simp
    show "f (?ys ! 0) \<le> y" if "y \<in> f ` set xs" for y using that l by auto
    show "f (?ys ! 0) \<in> f ` set xs" using m by simp
  qed
qed

lemma getNextCard_due:
  assumes "ensureDeck combos st = Returns d st1" and "0 \<le> rnd" and "rnd < 1"
    and "\<exists>c \<in> set (Map_values d). due c \<le> clock st1"
  shows "\<exists>c. getNextCard combos rnd st = Returns c st1 \<and> c \<in> set (Map_values d) \<and>
           due c \<le> clock st1 \<and>
           due c \<le> Min (due ` {x \<in> set (Map_values d). due x \<le> clock st1}) + 2"
proof -
  let ?dueCards = "filter (\<lambda>c. due c \<le> clock st1) (Map_values d)"
  let ?sorted = "sort_key due ?dueCards"
  let ?minDue = "due (?sorted ! 0)"
  let ?pool = "filter (\<lambda>c. due c \<le> ?minDue + 2) ?sorted"
  have ne: "?dueCards \<noteq> []"
    using assms(4) by (auto simp: filter_empty_conv)
  have g: "getNextCard combos rnd st = pick ?pool rnd st1"
    unfolding getNextCard_def assms(1) using ne by (simp add: Let_def)
  have sd: "set ?dueCards = {x \<in> set (Map_values d). due x \<le> clock st1}" by auto
  have m: "?minDue = Min (due ` {x \<in> set (Map_values d). due x \<le> clock st1})"
    using sort_key_first(1) [OF ne, of due] sd by simp
  have "?sorted ! 0 \<in> set ?sorted"
    using sort_key_first(2) [OF ne, of due] by simp
  then have "?sorted ! 0 \<in> set ?pool" by simp
  then have "?pool \<noteq> []" by (rule in_set_nonempty)
  from pick_in_pool [OF this assms(2,3), of st1]
  obtain c where c: "c \<in> set ?pool" "pick ?pool rnd st1 = Returns c st1" by blast
  from c(1) have "c \<in> set (Map_values d)" "due c \<le> clock st1" "due c \<le> ?minDue + 2"
    by simp_all
  with c(2) g m show ?thesis by auto
qed

text \<open>
  Claim C2. Whenever some entry of the loaded deck is due, \<open>getNextCard\<close> returns, for
  every value of \<open>Math.random()\<close>, an entry of the deck that is due and whose \<open>due\<close> is
  at most two above the smallest \<open>due\<close> of the due entries, and it leaves the state as
  \<open>ensureDeck\<close> made it. With \<open>due\<close> values 5, 5, 6, 9 and the clock at 7 the entry with
  \<open>due = 9\<close> is never returned.
\<close>

theorem selection_respects_due_window:
  assumes "ensureDeck combos st = Returns d st1" and "0 \<le> rnd" and "rnd < 1"
    and "\<exists>c \<in> set (Map_values d). due c \<le> clock st1"
  shows "(\<exists>c. getNextCard combos rnd st = Returns c st1 \<and> c \<in> set (Map_values d) \<and>
            due c \<le> clock st1 \<and>
            due c \<le> Min (due ` {x \<in> set (Map_values d). due x \<le> clock st1}) + 2) \<and>
         (\<exists>c. getNextCard combos rnd windowState = Returns c windowState \<and>
            c \<in> set (Map_values windowDeck) \<and> due c \<noteq> 9)"
proof
  show "\<exists>c. getNextCard combos rnd st = Returns c st1 \<and> c \<in> set (Map_values d) \<and>
            due c \<le> clock st1 \<and>
            due c \<le> Min (due ` {x \<in> set (Map_values d). due x \<le> clock st1}) + 2"
    using assms by (rule getNextCard_due)
  from getNextCard_due [OF ensureDeck_windowState assms(2,3) window_has_due, of combos]
  obtain c where "getNextCard combos rnd windowState = Returns c windowState"
    "c \<in> set (Map_values windowDeck)" "due c \<le> clock windowState"
    by blast
  moreover have "clock windowState = 7" by (simp add: windowState_def)
  ultimately show "\<exists>c. getNextCard combos rnd windowState = Returns c windowState \<and>
            c \<in> set (Map_values windowDeck) \<and> due c \<noteq> 9"
    by auto
qed

theorem selection_respects_due_window_witness:
  "ensureDeck [] windowState = Returns windowDeck windowState \<and> (0::rat) \<le> 9 / 10 \<and>
   (9 / 10 :: rat) < 1 \<and> (\<exists>c \<in> set (Map_values windowDeck). due c \<le> clock windowState) \<and>
   (\<exists>c. getNextCard [] (9 / 10) windowState = Returns c windowState \<and>
        c \<in> set (Map_values windowDeck) \<and> due c \<le> 7 \<and> due c \<noteq> 9)"
proof -
  have a: "(0::rat) \<le> 9 / 10" and b: "(9 / 10 :: rat) < 1" by simp_all
  have c: "clock windowState = 7" by (simp add: windowState_def)
  have e: "ensureDeck [] windowState = Returns windowDeck windowState"
    by (rule ensureDeck_windowState)
  from selection_respects_due_window [OF e a b window_has_due]
  obtain x where "getNextCard [] (9 / 10) windowState = Returns x windowState"
    "x \<in> set (Map_values windowDeck)" "due x \<le> clock windowState"
    by blast
  moreover from this have "due x \<noteq> 9" using c by simp
  ultimately show ?thesis using e window_has_due c by auto
qed

lemma getNextCard_window_values:
  "getNextCard [] 0 windowState = Returns (windowCard ''AA'' 5) windowState"
  "getNextCard [] (1 / 2) windowState = Returns (windowCard ''KK'' 5) windowState"
  "getNextCard [] (9 / 10) windowState = Returns (windowCard ''QQ'' 6) windowState"
  by code_simp+

subsection \<open>An incorrect answer\<close>



subsection \<open>The floor of the ease\<close>






subsection \<open>An identity that is not in the deck\<close>

text \<open>
  Claim C5. When the key of \<open>(hand, position)\<close> is not in the deck, \<open>recordAnswer\<close>
  returns without an exception and does nothing beyond what \<open>ensureDeck\<close> does: the two
  stored blobs and the statistics are unchanged, and on a deck that is already loaded
  the whole state (clock, deck, storage) is the one before the call.
\<close>

theorem unknown_identity_noop:
  assumes "ensureDeck combos st = Returns d st1"
    and "Map_get d (h @ ''|'' @ p) = None"
  shows "recordAnswer combos h p correct st = Returns () st1 \<and>
         deckBlob st1 = deckBlob st \<and> statsBlob st1 = statsBlob st \<and>
         getStats st1 = getStats st \<and>
         (deck st \<noteq> None \<longrightarrow> st1 = st)"
proof -
  have "getStats st1 = getStats st"
    unfolding getStats_def using ensureDeck_Returns(3) [OF assms(1)] by (rule loadStats_cong)
  then show ?thesis
    using recordAnswer_missing [OF assms] ensureDeck_Returns [OF assms(1)] by simp
qed

theorem unknown_identity_noop_witness:
  "ensureDeck [] exampleState = Returns [(''AKs|UTG'', exampleCard)] exampleState \<and>
   Map_get [(''AKs|UTG'', exampleCard)] (''72o'' @ ''|'' @ ''UTG'') = None \<and>
   deck exampleState \<noteq> None \<and>
   recordAnswer [] ''72o'' ''UTG'' True exampleState = Returns () exampleState"
proof -
  have g: "Map_get [(''AKs|UTG'', exampleCard)] (''72o'' @ ''|'' @ ''UTG'') = None"
    by (simp add: Map_get_def)
  have d: "deck exampleState \<noteq> None" by (simp add: exampleState_def)
  from unknown_identity_noop [OF ensureDeck_exampleState g, of True]
  show ?thesis using ensureDeck_exampleState g d by simp
qed

subsection \<open>The clock on load\<close>

text \<open>
  Claim C6. When the deck is loaded with the clock at 0, the clock after \<open>ensureDeck\<close> is
  the maximum of 0 and of \<open>max due (lastSeen + 1)\<close> over the entries of the deck. So it is
  0 for an empty deck, it is the maximum over the entries as soon as one of them
  contributes a value that is not negative (every entry the engine writes does), and it
  is the same for every order of the entries, although the code makes one pass in
  iteration order.
\<close>

theorem clock_bootstrap:
  assumes "deck st = None" and "clock st = 0" and "ensureDeck combos st = Returns d st1"
  shows "clock st1 = Max (insert 0 (entryTick ` set (Map_values d))) \<and>
         (Map_values d = [] \<longrightarrow> clock st1 = 0) \<and>
         ((\<exists>c \<in> set (Map_values d). 0 \<le> entryTick c) \<longrightarrow>
            clock st1 = Max (entryTick ` set (Map_values d))) \<and>
         (\<forall>cards. set cards = set (Map_values d) \<longrightarrow> foldl clockStep 0 cards = clock st1)"
proof -
  let ?S = "entryTick ` set (Map_values d)"
  have c: "clock st1 = Max (insert 0 ?S)"
    using ensureDeck_clock [OF assms(1,3)] assms(2) by (simp add: foldl_clockStep)
  have e: "clock st1 = 0" if "Map_values d = []"
    using c that by simp
  have m: "clock st1 = Max ?S" if "\<exists>c \<in> set (Map_values d). 0 \<le> entryTick c"
  proof -
    from that obtain x where x: "x \<in> set (Map_values d)" "0 \<le> entryTick x" by blast
    then have ne: "?S \<noteq> {}" by auto
    have "entryTick x \<le> Max ?S" using x(1) by (intro Max_ge) simp_all
    then have "0 \<le> Max ?S" using x(2) by linarith
    then show ?thesis using c ne by (simp add: max_def)
  qed
  have o: "foldl clockStep 0 cards = clock st1" if "set cards = set (Map_values d)" for cards
    using c that by (simp add: foldl_clockStep)
  show ?thesis using c e m o by blast
qed

theorem clock_bootstrap_witness:
  "deck storedState = None \<and> clock storedState = 0 \<and>
   ensureDeck [] storedState =
     Returns storedDeck (storedState\<lparr>deck := Some storedDeck, clock := 11\<rparr>) \<and>
   (\<exists>c \<in> set (Map_values storedDeck). 0 \<le> entryTick c) \<and>
   set (rev (Map_values storedDeck)) = set (Map_values storedDeck) \<and>
   Max (entryTick ` set (Map_values storedDeck)) = 11 \<and>
   foldl clockStep 0 (rev (Map_values storedDeck)) = 11"
proof -
  have d: "deck storedState = None" and c: "clock storedState = 0"
    by (simp_all add: storedState_def)
  have t: "\<exists>c \<in> set (Map_values storedDeck). 0 \<le> entryTick c"
    by (simp add: storedDeck_def storedCards_def Map_values_def entryTick_def)
  have r: "set (rev (Map_values storedDeck)) = set (Map_values storedDeck)" by simp
  from clock_bootstrap [OF d c ensureDeck_storedState]
  have "Max (entryTick ` set (Map_values storedDeck)) = 11"
    "foldl clockStep 0 (rev (Map_values storedDeck)) = 11"
    using t r by auto
  then show ?thesis using d c ensureDeck_storedState t r by blast
qed

subsection \<open>Reset\<close>

lemma isDefault_freshCard: "isDefault (freshCard x)"
  by (simp add: isDefault_def freshCard_def)

lemma entryTick_default: "isDefault c \<Longrightarrow> entryTick c = 0"
  by (simp add: isDefault_def entryTick_def)

lemma fresh_deck_entries:
  assumes "x \<in> set combos"
  shows "\<exists>c. Map_get (foldl addCombo [] combos) (comboKey x) = Some c \<and> isDefault c \<and>
           comboKey c = comboKey x \<and>
           (inj_on comboKey (set combos) \<longrightarrow> hand c = hand x \<and> position c = position x)"
proof -
  let ?d = "foldl addCombo [] combos"
  have "Map_has ?d (comboKey x)"
    using assms by (simp add: Map_has_foldl_addCombo)
  then obtain c where c: "Map_get ?d (comboKey x) = Some c"
    by (auto simp: Map_has_def Map_get_def)
  then have "(comboKey x, c) \<in> set ?d"
    unfolding Map_get_def by (rule map_of_SomeD)
  from entries_addCombo [OF this]
  obtain y where y: "y \<in> set combos" "comboKey x = comboKey y" "c = freshCard y" by auto
  have "hand c = hand x \<and> position c = position x" if "inj_on comboKey (set combos)"
  proof -
    have "x = y" using that assms y(1,2) by (auto dest: inj_onD)
    then show ?thesis using y(3) by (simp add: freshCard_def)
  qed
  then show ?thesis
    using c y by (auto simp: isDefault_freshCard comboKey_freshCard)
qed

text \<open>
  Claim C7. After \<open>resetProgress\<close> and \<open>reloadDeck\<close>, whatever the state was, the next
  \<open>ensureDeck\<close> returns a deck with no key twice in which every entry has the default
  fields (\<open>interval = 0\<close>, \<open>ease = 2.5\<close>, \<open>repetitions = 0\<close>, \<open>due = 0\<close>,
  \<open>lastSeen = -1\<close>) and every identity of the catalog has its entry under its key; the
  clock is 0, both stored blobs are absent and \<open>getStats\<close> returns the all-zero Stats.
\<close>

theorem reset_clears_everything:
  "\<exists>d st'. ensureDeck combos (reloadDeck (resetProgress st)) = Returns d st' \<and>
     deck st' = Some d \<and> clock st' = 0 \<and> deckBlob st' = None \<and> statsBlob st' = None \<and>
     getStats st' = Inr (Typed defaultStats) \<and>
     distinct (map fst d) \<and>
     (\<forall>c \<in> set (Map_values d). isDefault c) \<and>
     (\<forall>x \<in> set combos. \<exists>c. Map_get d (comboKey x) = Some c \<and> isDefault c \<and>
        comboKey c = comboKey x \<and>
        (inj_on comboKey (set combos) \<longrightarrow> hand c = hand x \<and> position c = position x))"
proof -
  let ?st0 = "reloadDeck (resetProgress st)"
  let ?d = "foldl addCombo [] combos"
  let ?clk = "foldl clockStep (clock ?st0) (Map_values ?d)"
  let ?st' = "?st0\<lparr>deck := Some ?d, clock := ?clk\<rparr>"
  have n: "deck ?st0 = None" "deckBlob ?st0 = None" "statsBlob ?st0 = None" "clock ?st0 = 0"
    by (simp_all add: reloadDeck_def resetProgress_def)
  have e: "ensureDeck combos ?st0 = Returns ?d ?st'"
    using n(1) loadDeck_no_blob [OF n(2)] by (rule ensureDeck_unloaded)
  have dflt: "isDefault c" if "c \<in> set (Map_values ?d)" for c
    using values_addCombo [OF that] by (auto simp: Map_values_def isDefault_freshCard)
  have "entryTick ` set (Map_values ?d) \<subseteq> {0}"
    using dflt entryTick_default by auto
  then have "insert 0 (entryTick ` set (Map_values ?d)) = {0}" by auto
  then have "Max (insert 0 (entryTick ` set (Map_values ?d))) = Max {0}"
    by (rule arg_cong)
  moreover have "?clk = Max (insert 0 (entryTick ` set (Map_values ?d)))"
    unfolding n(4) by (rule foldl_clockStep)
  ultimately have clk: "?clk = 0" by simp
  have "keyed ?d" using keyed_Nil by (rule keyed_foldl_addCombo)
  then have dist: "distinct (map fst ?d)" by (simp add: keyed_def)
  have gs: "getStats ?st' = Inr (Typed defaultStats)"
    unfolding getStats_def using n(3) by (intro loadStats_no_blob) simp
  have "deck ?st' = Some ?d" "clock ?st' = 0" "deckBlob ?st' = None" "statsBlob ?st' = None"
    using clk n by simp_all
  with e gs dist dflt fresh_deck_entries show ?thesis by blast
qed

theorem reset_clears_everything_witness:
  "\<exists>d st'. ensureDeck exampleCombos (reloadDeck (resetProgress storedState)) = Returns d st' \<and>
     clock st' = 0 \<and> getStats st' = Inr (Typed defaultStats) \<and>
     (\<exists>c. Map_get d ''AKs|UTG'' = Some c \<and> isDefault c \<and> hand c = ''AKs'' \<and> position c = ''UTG'')"
proof -
  have x: "\<lparr>hand = ''AKs'', position = ''UTG''\<rparr> \<in> set exampleCombos"
    and i: "inj_on comboKey (set exampleCombos)"
    and k: "comboKey \<lparr>hand = ''AKs'', position = ''UTG''\<rparr> = ''AKs|UTG''"
    by (simp_all add: exampleCombos_def comboKey_def)
  from reset_clears_everything [of exampleCombos storedState]
  obtain d st' where
    "ensureDeck exampleCombos (reloadDeck (resetProgress storedState)) = Returns d st'"
    "clock st' = 0" "getStats st' = Inr (Typed defaultStats)"
    "\<forall>x \<in> set exampleCombos. \<exists>c. Map_get d (comboKey x) = Some c \<and> isDefault c \<and>
        comboKey c = comboKey x \<and>
        (inj_on comboKey (set exampleCombos) \<longrightarrow> hand c = hand x \<and> position c = position x)"
    by blast
  then show ?thesis using x i k by fastforce
qed

subsection \<open>Saving and loading a deck\<close>



subsection \<open>Loading from damaged storage\<close>




subsection \<open>A correct answer is never due at once\<close>

text \<open>
  Claim C10. In every state reached from a fresh deck by calls of \<open>recordAnswer\<close>, a
  further call with \<open>correct = true\<close> returns and leaves the answered card with
  \<open>interval \<ge> 1\<close>, \<open>lastSeen\<close> equal to the clock and \<open>due > lastSeen\<close>. Every card of
  such a state has \<open>due \<ge> lastSeen\<close>, and \<open>due = lastSeen\<close> only with \<open>interval = 0\<close> and
  \<open>repetitions = 0\<close>, which is what an incorrect answer leaves.
\<close>

theorem correct_answer_schedules_ahead:
  assumes "reachable combos st"
  shows "\<exists>st'. recordAnswer combos h p True st = Returns () st' \<and>
           (\<forall>c'. cardOf st' h p = Some c' \<longrightarrow>
                  1 \<le> interval c' \<and> lastSeen c' = clock st' \<and> lastSeen c' < due c') \<and>
           (\<forall>k c. cardAt st k = Some c \<longrightarrow>
                  lastSeen c \<le> due c \<and> (due c = lastSeen c \<longrightarrow> interval c = 0 \<and> repetitions c = 0))"
proof -
  have si: "stateInv st" using assms by (rule reachable_stateInv)
  then obtain d s where d: "deck st = Some d" and s: "loadStats st = Inr (Typed s)"
    and inv: "\<forall>c \<in> set (Map_values d). cardInv c"
    by (auto simp: stateInv_iff)
  have ed: "ensureDeck combos st = Returns d st"
    using d by (rule ensureDeck_loaded)
  have old: "lastSeen c \<le> due c \<and> (due c = lastSeen c \<longrightarrow> interval c = 0 \<and> repetitions c = 0)"
    if "cardAt st k = Some c" for k c
  proof -
    have "cardInv c" using that inv d Map_get_values [of d k c] by (simp add: cardAt_def)
    then show ?thesis by (auto simp: cardInv_def)
  qed
  show ?thesis
  proof (cases "Map_get d (h @ ''|'' @ p)")
    case None
    have "recordAnswer combos h p True st = Returns () st"
      using ed None by (rule recordAnswer_missing)
    moreover have "cardOf st h p = None"
      using d None by (simp add: cardOf_def)
    ultimately show ?thesis using old by simp
  next
    case (Some c)
    let ?st' = "answered True (h @ ''|'' @ p) s d c st"
    let ?c' = "updateCard True (clock st + 1) c"
    have ci: "cardInv c" using inv Map_get_values [OF Some] by simp
    then have ci': "cardInv ?c'" by (rule cardInv_updateCard)
    have "1 \<le> repetitions ?c'"
      using ci by (simp add: updateCard_correct cardInv_def)
    then have i: "1 \<le> interval ?c'" using ci' by (simp add: cardInv_def)
    have l: "lastSeen ?c' = clock st + 1" "due ?c' = clock st + 1 + interval ?c'"
      by (simp_all add: updateCard_correct)
    have "recordAnswer combos h p True st = Returns () ?st'"
      using ed Some s by (rule recordAnswer_found)
    moreover have "cardOf ?st' h p = Some ?c'" by (rule cardOf_answered)
    moreover have "clock ?st' = clock st + 1" by (rule clock_answered)
    ultimately show ?thesis using old i l by simp
  qed
qed

theorem correct_answer_schedules_ahead_witness:
  "reachable exampleCombos exampleState \<and>
   cardAt exampleState ''AKs|UTG'' = Some exampleCard \<and>
   (\<exists>st' c'. recordAnswer exampleCombos ''AKs'' ''UTG'' True exampleState = Returns () st' \<and>
      cardOf st' ''AKs'' ''UTG'' = Some c' \<and> 1 \<le> interval c' \<and> lastSeen c' < due c') \<and>
   lastSeen exampleCard \<le> due exampleCard"
proof -
  from correct_answer_schedules_ahead [OF reachable_example, of "''AKs''" "''UTG''"]
  obtain st' where r: "recordAnswer exampleCombos ''AKs'' ''UTG'' True exampleState = Returns () st'"
    and n: "\<forall>c'. cardOf st' ''AKs'' ''UTG'' = Some c' \<longrightarrow>
                  1 \<le> interval c' \<and> lastSeen c' = clock st' \<and> lastSeen c' < due c'"
    and o: "\<forall>k c. cardAt exampleState k = Some c \<longrightarrow>
                  lastSeen c \<le> due c \<and> (due c = lastSeen c \<longrightarrow> interval c = 0 \<and> repetitions c = 0)"
    by blast
  have g: "Map_get [(''AKs|UTG'', exampleCard)] (''AKs'' @ ''|'' @ ''UTG'') = Some exampleCard"
    by (simp add: Map_get_def)
  have "recordAnswer exampleCombos ''AKs'' ''UTG'' True exampleState =
          Returns () (answered True (''AKs'' @ ''|'' @ ''UTG'') defaultStats
                        [(''AKs|UTG'', exampleCard)] exampleCard exampleState)"
    using ensureDeck_loaded [OF deck_example] g loadStats_example by (rule recordAnswer_found)
  with r have "st' = answered True (''AKs'' @ ''|'' @ ''UTG'') defaultStats
                        [(''AKs|UTG'', exampleCard)] exampleCard exampleState"
    by simp
  then have "\<exists>c'. cardOf st' ''AKs'' ''UTG'' = Some c'"
    using cardOf_answered by blast
  with r n o cardAt_example reachable_example show ?thesis by blast
qed

end
